theory Spec2Isabelle
  imports Complex_Main "HOL-Library.Word"
begin

section \<open>Common data model\<close>

text \<open>
  The module \<^verbatim>\<open>python/utils.py\<close> is Python 2 code over numpy arrays. Every
  exception the modelled functions can raise is a value of \<open>error\<close>; a function that
  can raise returns \<open>error + 'a\<close> with \<open>Inl\<close> for the exception.
\<close>

datatype error = IOError | EOFError | MemoryError | ValueError | IndexError | TypeError

text \<open>
  A float64 value. Finite values are modelled by exact real arithmetic (rounding error
  and signed zeros are not modelled); the IEEE special values that numpy produces where
  real arithmetic is undefined (division by zero, mean of nothing) are explicit.
\<close>

datatype npfloat = Num real | PInf | NInf | NaN

text \<open>
  A numpy array: its shape and its elements in row-major order.
  \<^verbatim>\<open>X.ndim\<close> is the length of the shape.
\<close>

record 'a ndarray =
  shape :: "nat list"
  data :: "'a list"

definition ndim :: "'a ndarray \<Rightarrow> nat" where
  "ndim X = length (shape X)"

text \<open>
  \<^verbatim>\<open>X[:, j]\<close>: needs at least two axes and \<open>j\<close> inside the second one, otherwise
  numpy raises IndexError. The result drops the second axis.
\<close>

definition column :: "'a ndarray \<Rightarrow> nat \<Rightarrow> error + 'a ndarray" where
  "column X j =
     (case shape X of
        n # k # rest \<Rightarrow>
          if j < k then
            (let R = prod_list rest in
             Inr \<lparr>shape = n # rest,
                  data = concat (map (\<lambda>i. take R (drop ((i * k + j) * R) (data X))) [0..<n])\<rparr>)
          else Inl IndexError
      | _ \<Rightarrow> Inl IndexError)"

text \<open>Elementwise operations on arrays of one shape, and \<^verbatim>\<open>np.stack([A, B], axis=-1)\<close>.\<close>

definition nd_map :: "('a \<Rightarrow> 'b) \<Rightarrow> 'a ndarray \<Rightarrow> 'b ndarray" where
  "nd_map f A = \<lparr>shape = shape A, data = map f (data A)\<rparr>"

definition nd_map2 :: "('a \<Rightarrow> 'b \<Rightarrow> 'c) \<Rightarrow> 'a ndarray \<Rightarrow> 'b ndarray \<Rightarrow> 'c ndarray" where
  "nd_map2 f A B = \<lparr>shape = shape A, data = map2 f (data A) (data B)\<rparr>"

definition nd_stack_last :: "'a ndarray \<Rightarrow> 'a ndarray \<Rightarrow> 'a ndarray" where
  "nd_stack_last A B =
     \<lparr>shape = shape A @ [2], data = concat (map2 (\<lambda>a b. [a, b]) (data A) (data B))\<rparr>"

text \<open>
  A well-formed segment batch, the \<open>[n, 2]\<close> array \<^verbatim>\<open>np.array(rows)\<close> of a list of
  pairs. It is used to state properties of all \<open>[n, 2]\<close> arrays.
\<close>

definition seg_batch :: "('a \<times> 'a) list \<Rightarrow> 'a ndarray" where
  "seg_batch rs = \<lparr>shape = [length rs, 2], data = concat (map (\<lambda>(a, b). [a, b]) rs)\<rparr>"

section \<open>Segment format conversion\<close>

text \<open>\<^verbatim>\<open>np.ceil\<close>, and \<^verbatim>\<open>np.round\<close>, which rounds a half to the even neighbour.\<close>

definition np_ceil :: "real \<Rightarrow> real" where
  "np_ceil x = of_int \<lceil>x\<rceil>"

definition np_round :: "real \<Rightarrow> real" where
  "np_round x =
     (let f = \<lfloor>x\<rfloor>; r = x - of_int f in
      of_int (if r < 1/2 then f else if 1/2 < r then f + 1 else if even f then f else f + 1))"

text \<open>
  \<^verbatim>\<open>segment_format(X, mthd='c2b', T=None, init=None)\<close>. The parameters \<open>T\<close> and \<open>init\<close>
  are never read. The first statement of the source,
  \<^verbatim>\<open>if X.ndim != 2: ValueError(msg.format(X.shape))\<close>,
  builds an exception and drops it (there is no \<^verbatim>\<open>raise\<close>), so it has no effect;
  \<open>dropped\<close> below stands for it. A mode that matches no branch falls off the end
  of the function, which returns Python's \<open>None\<close>.
\<close>

definition segment_format :: "real ndarray \<Rightarrow> string \<Rightarrow> error + real ndarray option" where
  "segment_format X mthd =
     (let dropped = (if ndim X \<noteq> 2 then Some ValueError else None) in
      if mthd = ''c2b'' then
        (case column X 0 of Inl e \<Rightarrow> Inl e | Inr X0 \<Rightarrow>
         case column X 1 of Inl e \<Rightarrow> Inl e | Inr X1 \<Rightarrow>
           let Xinit = nd_map np_ceil (nd_map2 (\<lambda>c d. c - 0.5 * d) X0 X1);
               Xend = nd_map2 (\<lambda>i d. i + d - 1.0) Xinit X1
           in Inr (Some (nd_stack_last Xinit Xend)))
      else if mthd = ''b2c'' then
        (case column X 0 of Inl e \<Rightarrow> Inl e | Inr X0 \<Rightarrow>
         case column X 1 of Inl e \<Rightarrow> Inl e | Inr X1 \<Rightarrow>
           let Xc = nd_map np_round (nd_map2 (\<lambda>a b. 0.5 * (a + b)) X0 X1);
               d = nd_map2 (\<lambda>b a. b - a + 1.0) X1 X0
           in Inr (Some (nd_stack_last Xc d)))
      else if mthd = ''d2b'' then
        (case column X 0 of Inl e \<Rightarrow> Inl e | Inr Xinit \<Rightarrow>
         case column X 1 of Inl e \<Rightarrow> Inl e | Inr X1 \<Rightarrow>
           let Xend = nd_map2 (\<lambda>a n. a + n - 1.0) Xinit X1
           in Inr (Some (nd_stack_last Xinit Xend)))
      else Inr None)"




definition d2b_row :: "real \<times> real \<Rightarrow> real \<times> real" where
  "d2b_row r = (fst r, fst r + snd r - 1)"



section \<open>Properties of the format conversion\<close>

lemma seg_batch_length: "length (data (seg_batch rs)) = 2 * length rs"
  by (induction rs) (auto simp: seg_batch_def)

lemma seg_batch_nth:
  "i < length rs \<Longrightarrow>
     data (seg_batch rs) ! (2 * i) = fst (rs ! i) \<and>
     data (seg_batch rs) ! (2 * i + 1) = snd (rs ! i)"
proof (induction rs arbitrary: i)
  case Nil
  then show ?case by simp
next
  case (Cons r rs)
  show ?case
  proof (cases i)
    case 0
    then show ?thesis by (cases r) (simp add: seg_batch_def)
  next
    case (Suc k)
    with Cons.prems have "k < length rs" by simp
    from Cons.IH [OF this] Suc show ?thesis
      by (cases r) (simp add: seg_batch_def)
  qed
qed

lemma column_seg_batch:
  assumes "j < 2"
  shows "column (seg_batch rs) j =
           Inr \<lparr>shape = [length rs], data = map (\<lambda>r. if j = 0 then fst r else snd r) rs\<rparr>"
proof -
  have one: "take (Suc 0) (drop (2 * i + j) (data (seg_batch rs)))
               = [if j = 0 then fst (rs ! i) else snd (rs ! i)]"
    if "i < length rs" for i
  proof -
    from assms have j: "j = 0 \<or> j = 1" by auto
    have len: "2 * i + j < length (data (seg_batch rs))"
      using that assms by (simp add: seg_batch_length)
    have "take (Suc 0) (drop (2 * i + j) (data (seg_batch rs)))
            = [data (seg_batch rs) ! (2 * i + j)]"
      using len by (simp add: take_Suc_conv_app_nth)
    with seg_batch_nth [OF that] j show ?thesis by auto
  qed
  have "concat (map (\<lambda>i. take (Suc 0) (drop (2 * i + j) (data (seg_batch rs)))) [0..<length rs])
          = concat (map (\<lambda>i. [if j = 0 then fst (rs ! i) else snd (rs ! i)]) [0..<length rs])"
    using one by (intro arg_cong [where f = concat] map_cong) auto
  also have "\<dots> = map (\<lambda>i. if j = 0 then fst (rs ! i) else snd (rs ! i)) [0..<length rs]"
    by (induction "[0..<length rs]") (auto simp: concat_map_singleton)
  also have "\<dots> = map (\<lambda>r. if j = 0 then fst r else snd r) rs"
    by (intro nth_equalityI) auto
  finally have "concat (map (\<lambda>i. take (Suc 0) (drop (2 * i + j) (data (seg_batch rs)))) [0..<length rs])
                  = map (\<lambda>r. if j = 0 then fst r else snd r) rs" .
  moreover have "shape (seg_batch rs) = [length rs, 2]"
    by (simp add: seg_batch_def)
  ultimately show ?thesis
    using assms by (simp add: column_def mult.commute)
qed

lemma stack_columns:
  "nd_stack_last \<lparr>shape = [length rs], data = map f rs\<rparr> \<lparr>shape = [length rs], data = map g rs\<rparr>
     = seg_batch (map (\<lambda>r. (f r, g r)) rs)"
  by (simp add: nd_stack_last_def seg_batch_def zip_map_map zip_same_conv_map comp_def)



lemma segment_format_d2b_rows:
  "segment_format (seg_batch rs) ''d2b'' = Inr (Some (seg_batch (map d2b_row rs)))"
proof -
  have "nd_stack_last
          \<lparr>shape = [length rs], data = map (\<lambda>r. fst (d2b_row r)) rs\<rparr>
          \<lparr>shape = [length rs], data = map (\<lambda>r. snd (d2b_row r)) rs\<rparr>
        = seg_batch (map (\<lambda>r. (fst (d2b_row r), snd (d2b_row r))) rs)"
    by (rule stack_columns)
  then show ?thesis
    by (simp add: segment_format_def column_seg_batch nd_map_def nd_map2_def
          zip_map_map zip_same_conv_map comp_def split_def d2b_row_def [abs_def])
qed


lemma np_round_int: "np_round (of_int c) = of_int c"
  by (simp add: np_round_def)





text \<open>
  Claim C10. For a 2-dimensional \<open>X\<close> and a mode string that is none of \<^verbatim>\<open>'c2b'\<close>,
  \<^verbatim>\<open>'b2c'\<close>, \<^verbatim>\<open>'d2b'\<close>, the conversion raises nothing and returns \<open>None\<close>.
\<close>

theorem segment_format_unknown_mode:
  assumes "ndim X = 2" and "mthd \<noteq> ''c2b''" and "mthd \<noteq> ''b2c''" and "mthd \<noteq> ''d2b''"
  shows "segment_format X mthd = Inr None"
  using assms by (simp add: segment_format_def)

theorem segment_format_unknown_mode_witness:
  "ndim (seg_batch [(0::real, 9)]) = 2 \<and> ''b2d'' \<noteq> ''c2b'' \<and> ''b2d'' \<noteq> ''b2c'' \<and>
   ''b2d'' \<noteq> ''d2b'' \<and> segment_format (seg_batch [(0, 9)]) ''b2d'' = Inr None"
proof -
  have n: "ndim (seg_batch [(0::real, 9)]) = 2"
    by (simp add: ndim_def seg_batch_def)
  from segment_format_unknown_mode [OF n, of "''b2d''"] n show ?thesis
    by simp
qed

text \<open>
  Claim C3 says that an input whose number of dimensions is not 2 makes the conversion
  fail with an invalid-shape error. The source builds the \<^verbatim>\<open>ValueError\<close> and never
  raises it, so the conversion never fails with it, whatever the input; on the
  3-dimensional array of shape \<open>[1, 2, 1]\<close> holding 5 and 10 the mode \<^verbatim>\<open>'d2b'\<close>
  returns an array of shape \<open>[1, 1, 2]\<close> holding 5 and 14.
\<close>

theorem segment_format_wrong_rank_returns:
  "segment_format X mthd \<noteq> Inl ValueError \<and>
   ndim \<lparr>shape = [1, 2, 1], data = [5, 10 :: real]\<rparr> = 3 \<and>
   segment_format \<lparr>shape = [1, 2, 1], data = [5, 10]\<rparr> ''d2b''
     = Inr (Some \<lparr>shape = [1, 1, 2], data = [5, 14]\<rparr>)"
proof -
  have "column Y j \<noteq> Inl ValueError" for Y :: "real ndarray" and j
    by (auto simp: column_def Let_def split: list.splits)
  then have "segment_format X mthd \<noteq> Inl ValueError"
    by (auto simp: segment_format_def Let_def split: sum.splits)
  moreover have "segment_format \<lparr>shape = [1, 2, 1], data = [5, 10]\<rparr> ''d2b''
     = Inr (Some \<lparr>shape = [1, 1, 2], data = [5, 14]\<rparr>)"
    by (simp add: segment_format_def column_def nd_map2_def nd_stack_last_def)
  ultimately show ?thesis by (simp add: ndim_def)
qed

section \<open>Pairwise intersection over union\<close>

text \<open>\<^verbatim>\<open>X[i, j]\<close> on a 2-dimensional array; an index out of range raises IndexError.\<close>

definition item2 :: "'a ndarray \<Rightarrow> nat \<Rightarrow> nat \<Rightarrow> error + 'a" where
  "item2 X i j =
     (case shape X of
        [r, k] \<Rightarrow> if i < r \<and> j < k then Inr (data X ! (i * k + j)) else Inl IndexError
      | _ \<Rightarrow> Inl IndexError)"

text \<open>
  Division of two finite floats as numpy does it: dividing by zero raises nothing, it
  gives NaN for \<open>0/0\<close> and an infinity otherwise.
\<close>

definition np_divide :: "real \<Rightarrow> real \<Rightarrow> npfloat" where
  "np_divide a b =
     (if b \<noteq> 0 then Num (a / b)
      else if a = 0 then NaN
      else if 0 < a then PInf else NInf)"

text \<open>
  The body of the loop of \<^verbatim>\<open>segment_iou\<close>: the row \<^verbatim>\<open>iou[i, :]\<close>.
  \<^verbatim>\<open>np.maximum\<close> and \<^verbatim>\<open>np.minimum\<close> pair the scalar of the target with each test
  segment, and \<^verbatim>\<open>.clip(0)\<close> is the maximum with 0.
\<close>

definition iou_row :: "real ndarray \<Rightarrow> real ndarray \<Rightarrow> nat \<Rightarrow> error + npfloat list" where
  "iou_row target_segments test_segments i =
     (case item2 target_segments i 0 of Inl e \<Rightarrow> Inl e | Inr t0 \<Rightarrow>
      case column test_segments 0 of Inl e \<Rightarrow> Inl e | Inr c0 \<Rightarrow>
      case item2 target_segments i 1 of Inl e \<Rightarrow> Inl e | Inr t1 \<Rightarrow>
      case column test_segments 1 of Inl e \<Rightarrow> Inl e | Inr c1 \<Rightarrow>
        let tt1 = map (max t0) (data c0);
            tt2 = map (min t1) (data c1);
            intersection = map2 (\<lambda>b a. max 0 (b - a + 1)) tt2 tt1;
            union = map2 (\<lambda>ts isz. ts + (t1 - t0 + 1) - isz)
                      (map2 (\<lambda>b a. b - a + 1) (data c1) (data c0)) intersection
        in Inr (map2 np_divide intersection union))"

text \<open>The loop \<^verbatim>\<open>for i in xrange(m)\<close>, stopping at the first exception.\<close>

fun iou_rows :: "real ndarray \<Rightarrow> real ndarray \<Rightarrow> nat list \<Rightarrow> error + npfloat list list" where
  "iou_rows target_segments test_segments [] = Inr []"
| "iou_rows target_segments test_segments (i # is) =
     (case iou_row target_segments test_segments i of
        Inl e \<Rightarrow> Inl e
      | Inr row \<Rightarrow>
          (case iou_rows target_segments test_segments is of
             Inl e \<Rightarrow> Inl e
           | Inr rows \<Rightarrow> Inr (row # rows)))"

text \<open>
  \<^verbatim>\<open>segment_iou(target_segments, test_segments)\<close>. The loop assigns every row of the
  \<^verbatim>\<open>np.empty((m, n))\<close> array, so the result is the rows it computed.
\<close>

definition segment_iou :: "real ndarray \<Rightarrow> real ndarray \<Rightarrow> error + npfloat ndarray" where
  "segment_iou target_segments test_segments =
     (if ndim target_segments \<noteq> 2 \<or> ndim test_segments \<noteq> 2 then Inl ValueError
      else
        let m = shape target_segments ! 0; n = shape test_segments ! 0 in
        case iou_rows target_segments test_segments [0..<m] of
          Inl e \<Rightarrow> Inl e
        | Inr rows \<Rightarrow> Inr \<lparr>shape = [m, n], data = concat rows\<rparr>)"

text \<open>The entry of the result for one target segment and one test segment.\<close>

definition iou_pair :: "real \<times> real \<Rightarrow> real \<times> real \<Rightarrow> npfloat" where
  "iou_pair t q =
     (let lo = max (fst t) (fst q);
          hi = min (snd t) (snd q);
          isz = max 0 (hi - lo + 1);
          usz = (snd q - fst q + 1) + (snd t - fst t + 1) - isz
      in np_divide isz usz)"

text \<open>The transpose \<^verbatim>\<open>X.T\<close> of a 2-dimensional array.\<close>

definition nd_transpose :: "'a ndarray \<Rightarrow> 'a ndarray" where
  "nd_transpose X =
     (case shape X of
        [r, c] \<Rightarrow> \<lparr>shape = [c, r],
                   data = concat (map (\<lambda>j. map (\<lambda>i. data X ! (i * c + j)) [0..<r]) [0..<c])\<rparr>
      | _ \<Rightarrow> X)"

text \<open>
  The entry as the specification words it, with the value the code gives when the
  union is zero.
\<close>

definition iou_entry_amended :: "real \<times> real \<Rightarrow> real \<times> real \<Rightarrow> npfloat" where
  "iou_entry_amended target test =
     (let lo = max (fst target) (fst test);
          hi = min (snd target) (snd test);
          intersection = max 0 (hi - lo + 1);
          testSize = snd test - fst test + 1;
          targetSize = snd target - fst target + 1;
          union = testSize + targetSize - intersection
      in if union = 0 then NaN else Num (intersection / union))"

section \<open>Properties of the intersection over union\<close>

lemma item2_seg_batch:
  "i < length rs \<Longrightarrow> item2 (seg_batch rs) i 0 = Inr (fst (rs ! i))"
  "i < length rs \<Longrightarrow> item2 (seg_batch rs) i (Suc 0) = Inr (snd (rs ! i))"
  using seg_batch_nth [of i rs]
  by (simp_all add: item2_def seg_batch_def mult.commute)

lemma iou_row_seg_batch:
  assumes "i < length ts"
  shows "iou_row (seg_batch ts) (seg_batch qs) i = Inr (map (iou_pair (ts ! i)) qs)"
proof -
  have "map2 np_divide
          (map2 (\<lambda>b a. max 0 (b - a + 1)) (map (min t1) (map snd qs)) (map (max t0) (map fst qs)))
          (map2 (\<lambda>ts isz. ts + (t1 - t0 + 1) - isz)
             (map2 (\<lambda>b a. b - a + 1) (map snd qs) (map fst qs))
             (map2 (\<lambda>b a. max 0 (b - a + 1)) (map (min t1) (map snd qs)) (map (max t0) (map fst qs))))
        = map (iou_pair (t0, t1)) qs" for t0 t1
    by (rule nth_equalityI) (simp_all add: iou_pair_def Let_def)
  from this [of "snd (ts ! i)" "fst (ts ! i)"] assms show ?thesis
    by (simp add: iou_row_def item2_seg_batch column_seg_batch Let_def)
qed

lemma iou_rows_seg_batch:
  "\<forall>i \<in> set is. i < length ts \<Longrightarrow>
     iou_rows (seg_batch ts) (seg_batch qs) is = Inr (map (\<lambda>i. map (iou_pair (ts ! i)) qs) is)"
  by (induction "is") (simp_all add: iou_row_seg_batch)

lemma segment_iou_seg_batch:
  "segment_iou (seg_batch ts) (seg_batch qs) =
     Inr \<lparr>shape = [length ts, length qs], data = concat (map (\<lambda>t. map (iou_pair t) qs) ts)\<rparr>"
proof -
  have "map (\<lambda>i. map (iou_pair (ts ! i)) qs) [0..<length ts] = map (\<lambda>t. map (iou_pair t) qs) ts"
    by (intro nth_equalityI) auto
  moreover have "ndim (seg_batch ts) = 2" "ndim (seg_batch qs) = 2"
    "shape (seg_batch ts) ! 0 = length ts" "shape (seg_batch qs) ! 0 = length qs"
    by (simp_all add: ndim_def seg_batch_def)
  ultimately show ?thesis
    by (simp add: segment_iou_def iou_rows_seg_batch)
qed

lemma concat_rows_nth:
  "\<forall>xs \<in> set xss. length xs = c \<Longrightarrow> i < length xss \<Longrightarrow> j < c \<Longrightarrow>
     concat xss ! (i * c + j) = xss ! i ! j"
proof (induction xss arbitrary: i)
  case Nil
  then show ?case by simp
next
  case (Cons xs xss)
  show ?case
  proof (cases i)
    case 0
    with Cons.prems show ?thesis by (simp add: nth_append)
  next
    case (Suc k)
    with Cons.prems have "concat xss ! (k * c + j) = xss ! k ! j"
      by (intro Cons.IH) auto
    with Cons.prems Suc show ?thesis by (simp add: nth_append)
  qed
qed

lemma iou_pair_commute: "iou_pair t q = iou_pair q t"
  by (simp add: iou_pair_def Let_def max.commute min.commute add.commute)


lemma iou_pair_amended: "iou_pair t = iou_entry_amended t"
  by (rule ext)
     (auto simp: iou_pair_def iou_entry_amended_def np_divide_def Let_def max_def min_def
        split: if_splits)

text \<open>
  Claim C2, amended. For every pair of segment batches, \<^verbatim>\<open>segment_iou\<close> returns the
  \<open>[m, n]\<close> matrix whose entry \<open>(i, j)\<close> is \<open>clamp(hi - lo + 1, min=0)\<close> divided by
  \<open>testSize + targetSize - intersection\<close>; when that union is zero the intersection is
  zero too and the entry is NaN, the value of numpy's \<open>0/0\<close>.
\<close>

theorem segment_iou_entries:
  "segment_iou (seg_batch target) (seg_batch test) =
     Inr \<lparr>shape = [length target, length test],
          data = concat (map (\<lambda>t. map (iou_entry_amended t) test) target)\<rparr>"
  by (simp add: segment_iou_seg_batch iou_pair_amended)

theorem segment_iou_entries_witness:
  "segment_iou (seg_batch [(0, 9), (0, -1)]) (seg_batch [(10, 19), (5, 14), (0, -1)]) =
     Inr \<lparr>shape = [2, 3], data = [Num 0, Num (1/3), Num 0, Num 0, Num 0, NaN]\<rparr>"
  using segment_iou_entries [of "[(0, 9), (0, -1)]" "[(10, 19), (5, 14), (0, -1)]"]
  by (simp add: iou_entry_amended_def)

text \<open>
  Claim C2 as stated fails: for two segments of size 0 the union is zero and the
  returned entry is NaN, not 0.
\<close>

theorem segment_iou_zero_union_nan:
  "segment_iou (seg_batch [(0, -1)]) (seg_batch [(0, -1)]) = Inr \<lparr>shape = [1, 1], data = [NaN]\<rparr> \<and>
   segment_iou (seg_batch [(0, -1)]) (seg_batch [(0, -1)]) \<noteq> Inr \<lparr>shape = [1, 1], data = [Num 0]\<rparr>"
  by (simp add: segment_iou_seg_batch iou_pair_def np_divide_def)

text \<open>
  Claim C8. For every pair of segment batches \<open>A\<close> and \<open>B\<close>, \<^verbatim>\<open>segment_iou(A, B)\<close> is
  the transpose of \<^verbatim>\<open>segment_iou(B, A)\<close>, entry by entry (an entry that is NaN on one
  side is NaN on the other).
\<close>

theorem segment_iou_transpose:
  "\<exists>R. segment_iou (seg_batch B) (seg_batch A) = Inr R \<and>
        segment_iou (seg_batch A) (seg_batch B) = Inr (nd_transpose R)"
proof -
  let ?R = "\<lparr>shape = [length B, length A], data = concat (map (\<lambda>b. map (iou_pair b) A) B)\<rparr>"
  have entry: "concat (map (\<lambda>b. map (iou_pair b) A) B) ! (i * length A + j) = iou_pair (A ! j) (B ! i)"
    if "i < length B" "j < length A" for i j
  proof -
    have "concat (map (\<lambda>b. map (iou_pair b) A) B) ! (i * length A + j)
            = map (\<lambda>b. map (iou_pair b) A) B ! i ! j"
      using that by (intro concat_rows_nth) auto
    with that show ?thesis by (simp add: iou_pair_commute)
  qed
  have "map (\<lambda>j. map (\<lambda>i. concat (map (\<lambda>b. map (iou_pair b) A) B) ! (i * length A + j)) [0..<length B])
          [0..<length A]
        = map (\<lambda>a. map (iou_pair a) B) A"
    using entry by (intro nth_equalityI) (auto intro!: nth_equalityI)
  then have "nd_transpose ?R
               = \<lparr>shape = [length A, length B], data = concat (map (\<lambda>a. map (iou_pair a) B) A)\<rparr>"
    by (simp add: nd_transpose_def)
  then show ?thesis
    by (simp add: segment_iou_seg_batch)
qed

theorem segment_iou_transpose_witness:
  "segment_iou (seg_batch [(0, 9), (0, 4)]) (seg_batch [(10, 19), (5, 14), (0, 9)])
     = Inr \<lparr>shape = [2, 3], data = [Num 0, Num (1/3), Num 1, Num 0, Num 0, Num (1/2)]\<rparr> \<and>
   segment_iou (seg_batch [(10, 19), (5, 14), (0, 9)]) (seg_batch [(0, 9), (0, 4)])
     = Inr \<lparr>shape = [3, 2], data = [Num 0, Num 0, Num (1/3), Num 0, Num 1, Num (1/2)]\<rparr>"
proof -
  obtain R where
    R: "segment_iou (seg_batch [(10, 19), (5, 14), (0, 9)]) (seg_batch [(0, 9), (0, 4)]) = Inr R"
       "segment_iou (seg_batch [(0, 9), (0, 4)]) (seg_batch [(10, 19), (5, 14), (0, 9)])
          = Inr (nd_transpose R)"
    using segment_iou_transpose [of "[(10, 19), (5, 14), (0, 9)]" "[(0, 9), (0, 4)]"] by blast
  have "segment_iou (seg_batch [(10, 19), (5, 14), (0, 9)]) (seg_batch [(0, 9), (0, 4)])
     = Inr \<lparr>shape = [3, 2], data = [Num 0, Num 0, Num (1/3), Num 0, Num 1, Num (1/2)]\<rparr>"
    by (simp add: segment_iou_seg_batch iou_pair_def np_divide_def)
  with R have "R = \<lparr>shape = [3, 2], data = [Num 0, Num 0, Num (1/3), Num 0, Num 1, Num (1/2)]\<rparr>"
    by simp
  with R show ?thesis
    by (simp add: nd_transpose_def eval_nat_numeral)
qed

section \<open>Float arithmetic with the special values\<close>

text \<open>
  Arithmetic on \<open>npfloat\<close>: exact on finite values, and IEEE 754 on the infinities
  and NaN. The equations of each function are tried in order.
\<close>

fun fl_neg :: "npfloat \<Rightarrow> npfloat" where
  "fl_neg (Num a) = Num (- a)"
| "fl_neg PInf = NInf"
| "fl_neg NInf = PInf"
| "fl_neg NaN = NaN"

fun fl_add :: "npfloat \<Rightarrow> npfloat \<Rightarrow> npfloat" where
  "fl_add (Num a) (Num b) = Num (a + b)"
| "fl_add NaN y = NaN"
| "fl_add x NaN = NaN"
| "fl_add PInf NInf = NaN"
| "fl_add NInf PInf = NaN"
| "fl_add PInf y = PInf"
| "fl_add NInf y = NInf"
| "fl_add (Num a) y = y"


fun fl_mul :: "npfloat \<Rightarrow> npfloat \<Rightarrow> npfloat" where
  "fl_mul (Num a) (Num b) = Num (a * b)"
| "fl_mul NaN y = NaN"
| "fl_mul x NaN = NaN"
| "fl_mul (Num a) y = (if a = 0 then NaN else if 0 < a then y else fl_neg y)"
| "fl_mul x (Num b) = (if b = 0 then NaN else if 0 < b then x else fl_neg x)"
| "fl_mul PInf y = y"
| "fl_mul NInf y = fl_neg y"

fun fl_div :: "npfloat \<Rightarrow> npfloat \<Rightarrow> npfloat" where
  "fl_div (Num a) (Num b) = np_divide a b"
| "fl_div NaN y = NaN"
| "fl_div x NaN = NaN"
| "fl_div (Num a) y = Num 0"
| "fl_div x (Num b) = (if 0 \<le> b then x else fl_neg x)"
| "fl_div x y = NaN"

fun fl_sqrt :: "npfloat \<Rightarrow> npfloat" where
  "fl_sqrt (Num a) = (if 0 \<le> a then Num (sqrt a) else NaN)"
| "fl_sqrt PInf = PInf"
| "fl_sqrt NInf = NaN"
| "fl_sqrt NaN = NaN"

section \<open>Unit rescaling\<close>





section \<open>Properties of unit rescaling\<close>










section \<open>Pyramid pooling and chunk-concat pooling\<close>

text \<open>\<^verbatim>\<open>str.lower\<close> on ASCII text.\<close>

definition char_lower :: "char \<Rightarrow> char" where
  "char_lower c =
     (case map_of (zip ''ABCDEFGHIJKLMNOPQRSTUVWXYZ'' ''abcdefghijklmnopqrstuvwxyz'') c of
        Some l \<Rightarrow> l
      | None \<Rightarrow> c)"

definition lower :: "string \<Rightarrow> string" where
  "lower s = map char_lower s"

text \<open>
  The partition edges of \<open>m\<close> rows into \<open>n\<close> regions,
  \<^verbatim>\<open>edges = np.ones(n + 1, dtype=int) * 1.0 / n; edges[0] = 0;
  edges = np.round(np.cumsum(edges) * m).astype(int)\<close>.
  The running sums are computed exactly; in floating point they are exact whenever
  \<open>n\<close> is a power of two, which is every level of the pyramid. For \<open>n = 0\<close> only
  the element set to 0 remains.
\<close>

fun cumsum_from :: "real \<Rightarrow> real list \<Rightarrow> real list" where
  "cumsum_from a [] = []"
| "cumsum_from a (x # xs) = (a + x) # cumsum_from (a + x) xs"

definition pool_edges :: "nat \<Rightarrow> nat \<Rightarrow> nat list" where
  "pool_edges n m =
     map (\<lambda>e. nat \<lfloor>np_round (e * of_nat m)\<rfloor>)
       (cumsum_from 0 (0 # replicate n (1 / of_nat n)))"

text \<open>
  The rows \<^verbatim>\<open>x[lo:hi, :]\<close> of an \<open>[m, d]\<close> array (a slice stops at the last row),
  and the reductions \<^verbatim>\<open>.mean(axis=0)\<close> and \<^verbatim>\<open>.max(axis=0)\<close> over them. The mean of
  no rows is \<open>0/0\<close> in every column, which numpy returns as NaN with a warning; the
  maximum of no rows raises ValueError (a zero-size reduction without identity).
\<close>

definition rows_slice :: "real ndarray \<Rightarrow> nat \<Rightarrow> nat \<Rightarrow> nat \<Rightarrow> nat \<Rightarrow> real list list" where
  "rows_slice x m d lo hi = map (\<lambda>i. take d (drop (i * d) (data x))) [lo..<min hi m]"

definition mean_axis0 :: "nat \<Rightarrow> real list list \<Rightarrow> npfloat list" where
  "mean_axis0 d region =
     map (\<lambda>k. np_divide (sum_list (map (\<lambda>r. r ! k) region)) (of_nat (length region))) [0..<d]"

definition max_axis0 :: "nat \<Rightarrow> real list list \<Rightarrow> error + npfloat list" where
  "max_axis0 d region =
     (if region = [] then Inl ValueError
      else Inr (map (\<lambda>k. Num (fold max (map (\<lambda>r. r ! k) (tl region)) (hd region ! k))) [0..<d]))"

text \<open>
  The normalisation of one pooled region:
  \<^verbatim>\<open>feat_norm = np.sqrt((arr[idx] ** 2).sum()); if feat_norm == 0: feat_norm = 1.0;
  arr[idx] /= feat_norm\<close>.
\<close>

definition l2_normalize :: "npfloat list \<Rightarrow> npfloat list" where
  "l2_normalize v =
     (let feat_norm = fl_sqrt (foldl fl_add (Num 0) (map (\<lambda>a. fl_mul a a) v));
          feat_norm = (if feat_norm = Num 0 then Num 1 else feat_norm)
      in map (\<lambda>a. fl_div a feat_norm) v)"

text \<open>
  The body of the inner loop, the same text in both functions: pool the rows between
  two edges and normalise. The source's parameter \<^verbatim>\<open>norm\<close> is written \<open>nrm\<close>.
\<close>

definition pool_region ::
  "string \<Rightarrow> bool \<Rightarrow> real ndarray \<Rightarrow> nat \<Rightarrow> nat \<Rightarrow> nat \<Rightarrow> nat \<Rightarrow> error + npfloat list" where
  "pool_region pool_type nrm x m d lo hi =
     (case (if pool_type = ''mean'' then Inr (mean_axis0 d (rows_slice x m d lo hi))
            else if pool_type = ''max'' then max_axis0 d (rows_slice x m d lo hi)
            else Inl ValueError) of
        Inl e \<Rightarrow> Inl e
      | Inr v \<Rightarrow> Inr (if nrm then l2_normalize v else v))"

text \<open>The loop \<^verbatim>\<open>for j in range(n)\<close> over the regions of one partition.\<close>

fun pool_regions ::
  "string \<Rightarrow> bool \<Rightarrow> real ndarray \<Rightarrow> nat \<Rightarrow> nat \<Rightarrow> nat list \<Rightarrow> nat list
     \<Rightarrow> error + npfloat list list" where
  "pool_regions pool_type nrm x m d edges [] = Inr []"
| "pool_regions pool_type nrm x m d edges (j # js) =
     (case pool_region pool_type nrm x m d (edges ! j) (edges ! (j + 1)) of
        Inl e \<Rightarrow> Inl e
      | Inr v \<Rightarrow>
          (case pool_regions pool_type nrm x m d edges js of
             Inl e \<Rightarrow> Inl e
           | Inr vs \<Rightarrow> Inr (v # vs)))"

text \<open>The loop \<^verbatim>\<open>for i in range(levels + 1)\<close> of the pyramid, with \<open>n = 2 ** i\<close>.\<close>

fun pyramid_levels ::
  "string \<Rightarrow> bool \<Rightarrow> real ndarray \<Rightarrow> nat \<Rightarrow> nat \<Rightarrow> nat list \<Rightarrow> error + npfloat list list" where
  "pyramid_levels pool_type nrm x m d [] = Inr []"
| "pyramid_levels pool_type nrm x m d (i # is) =
     (let n = 2 ^ i; edges = pool_edges n m in
      case pool_regions pool_type nrm x m d edges [0..<n] of
        Inl e \<Rightarrow> Inl e
      | Inr vs \<Rightarrow>
          (case pyramid_levels pool_type nrm x m d is of
             Inl e \<Rightarrow> Inl e
           | Inr ws \<Rightarrow> Inr (vs @ ws)))"

text \<open>
  \<^verbatim>\<open>feature_1dpyramid(x, levels=0, pool_type='mean', norm=True, unit=False)\<close>.
  \<^verbatim>\<open>m, d = x.shape\<close> raises ValueError unless \<open>x\<close> has two axes. For \<open>levels < -1\<close>
  the length \<^verbatim>\<open>2**(levels + 1) - 1\<close> is a float and \<^verbatim>\<open>range\<close> raises TypeError; for
  \<open>levels = -1\<close> no region is pooled and \<^verbatim>\<open>np.hstack([])\<close> raises ValueError.
\<close>

definition feature_1dpyramid ::
  "real ndarray \<Rightarrow> int \<Rightarrow> string \<Rightarrow> bool \<Rightarrow> bool \<Rightarrow> error + npfloat list" where
  "feature_1dpyramid x levels pool_type nrm unit =
     (case shape x of
        [m, d] \<Rightarrow>
          if levels < - 1 then Inl TypeError
          else
            (case pyramid_levels (lower pool_type) nrm x m d [0..<nat (levels + 1)] of
               Inl e \<Rightarrow> Inl e
             | Inr arr \<Rightarrow>
                 if arr = [] then Inl ValueError
                 else
                   let pyr_feat = concat arr in
                   Inr (if unit
                        then map (\<lambda>v. fl_div v (Num (2 ^ nat (levels + 1) - 1))) pyr_feat
                        else pyr_feat))
      | _ \<Rightarrow> Inl ValueError)"

text \<open>
  \<^verbatim>\<open>feature_1dconcat(x, n=8, pool_type='mean', norm=True, unit=False)\<close>. For
  \<open>n < -1\<close> \<^verbatim>\<open>np.ones(n + 1)\<close> raises ValueError, for \<open>n = -1\<close> the assignment
  \<^verbatim>\<open>edges[0] = 0\<close> raises IndexError, and for \<open>n = 0\<close> \<^verbatim>\<open>np.hstack([])\<close> raises
  ValueError.
\<close>

definition feature_1dconcat ::
  "real ndarray \<Rightarrow> int \<Rightarrow> string \<Rightarrow> bool \<Rightarrow> bool \<Rightarrow> error + npfloat list" where
  "feature_1dconcat x n pool_type nrm unit =
     (case shape x of
        [m, d] \<Rightarrow>
          if n < - 1 then Inl ValueError
          else if n = - 1 then Inl IndexError
          else
            (case pool_regions (lower pool_type) nrm x m d (pool_edges (nat n) m) [0..<nat n] of
               Inl e \<Rightarrow> Inl e
             | Inr arr \<Rightarrow>
                 if arr = [] then Inl ValueError
                 else
                   let concat_feat = concat arr in
                   Inr (if unit then map (\<lambda>v. fl_div v (Num (of_int n))) concat_feat
                        else concat_feat))
      | _ \<Rightarrow> Inl ValueError)"



text \<open>
  A single global pool over the whole input, as the specification words it: the
  elementwise average or the elementwise maximum over all rows of the matrix, an
  unknown pool kind being an error, and optionally the division by the L2 norm, with
  a zero norm treated as norm 1.
\<close>

definition l2_norm :: "real list \<Rightarrow> real" where
  "l2_norm v = sqrt (sum_list (map (\<lambda>a. a\<^sup>2) v))"

definition normalized :: "real list \<Rightarrow> real list" where
  "normalized v = map (\<lambda>a. a / (if l2_norm v = 0 then 1 else l2_norm v)) v"

definition global_pool :: "string \<Rightarrow> bool \<Rightarrow> real ndarray \<Rightarrow> error + npfloat list" where
  "global_pool kind nrm x =
     (let m = shape x ! 0; d = shape x ! 1;
          col = (\<lambda>k. map (\<lambda>i. data x ! (i * d + k)) [0..<m]);
          finish = (\<lambda>pooled. Inr (map Num (if nrm then normalized pooled else pooled)))
      in
      if kind = ''mean'' then finish (map (\<lambda>k. sum_list (col k) / of_nat m) [0..<d])
      else if kind = ''max'' then finish (map (\<lambda>k. Max (set (col k))) [0..<d])
      else Inl ValueError)"

section \<open>Properties of the pooling functions\<close>

lemma pool_edges_one: "pool_edges (Suc 0) m = [0, m]"
proof -
  have "np_round (real m) = real m"
    using np_round_int [of "int m"] by simp
  then show ?thesis
    by (simp add: pool_edges_def np_round_def)
qed

lemma row_entry:
  assumes "length xs = m * d" "i < m" "k < d"
  shows "take d (drop (i * d) xs) ! k = xs ! (i * d + k)"
proof -
  have "i * d + d \<le> m * d"
    using assms(2) by (metis Suc_leI mult_Suc mult_le_mono1 add.commute)
  with assms show ?thesis by simp
qed

lemma rows_slice_all_column:
  assumes "length (data x) = m * d" "k < d"
  shows "map (\<lambda>r. r ! k) (rows_slice x m d 0 m) = map (\<lambda>i. data x ! (i * d + k)) [0..<m]"
  using assms by (simp add: rows_slice_def row_entry)

lemma fl_sum_squares:
  "foldl fl_add (Num s) (map (\<lambda>a. fl_mul a a) (map Num ps)) = Num (s + sum_list (map (\<lambda>a. a\<^sup>2) ps))"
  by (induction ps arbitrary: s) (simp_all add: power2_eq_square add.assoc)

lemma l2_normalize_finite: "l2_normalize (map Num ps) = map Num (normalized ps)"
proof -
  have nonneg: "0 \<le> sum_list (map (\<lambda>a. a\<^sup>2) ps)"
    by (rule sum_list_nonneg) auto
  show ?thesis
    using nonneg fl_sum_squares [of 0 ps]
    by (simp add: l2_normalize_def normalized_def l2_norm_def Let_def np_divide_def)
qed

lemma pool_region_whole:
  assumes "length (data x) = m * d" "0 < m"
  shows "pool_region kind nrm x m d 0 m = global_pool kind nrm (x\<lparr>shape := [m, d]\<rparr>)"
proof -
  let ?col = "\<lambda>k. map (\<lambda>i. data x ! (i * d + k)) [0..<m]"
  define avg where "avg = map (\<lambda>k. sum_list (?col k) / of_nat m) [0..<d]"
  define top where "top = map (\<lambda>k. Max (set (?col k))) [0..<d]"
  have len: "length (rows_slice x m d 0 m) = m"
    by (simp add: rows_slice_def)
  then have ne: "rows_slice x m d 0 m \<noteq> []"
    using assms(2) by auto
  have mean: "mean_axis0 d (rows_slice x m d 0 m) = map Num avg"
    using assms len by (simp add: mean_axis0_def rows_slice_all_column np_divide_def avg_def)
  have "fold max (map (\<lambda>r. r ! k) (tl (rows_slice x m d 0 m))) (hd (rows_slice x m d 0 m) ! k)
          = Max (set (?col k))" if "k < d" for k
  proof -
    obtain r rs where rs: "rows_slice x m d 0 m = r # rs"
      using ne by (cases "rows_slice x m d 0 m") auto
    have "Max (set (map (\<lambda>r. r ! k) (r # rs))) = fold max (map (\<lambda>r. r ! k) rs) (r ! k)"
      by (simp only: list.map Max.set_eq_fold)
    with rs rows_slice_all_column [OF assms(1) that] show ?thesis by simp
  qed
  then have maxe: "max_axis0 d (rows_slice x m d 0 m) = Inr (map Num top)"
    using ne by (simp add: max_axis0_def top_def)
  have gmean: "global_pool ''mean'' nrm (x\<lparr>shape := [m, d]\<rparr>)
                 = Inr (map Num (if nrm then normalized avg else avg))"
    by (simp add: global_pool_def avg_def Let_def)
  have gmax: "global_pool ''max'' nrm (x\<lparr>shape := [m, d]\<rparr>)
                 = Inr (map Num (if nrm then normalized top else top))"
    by (simp add: global_pool_def top_def Let_def)
  show ?thesis
  proof (cases "kind = ''mean''")
    case True
    have "pool_region ''mean'' nrm x m d 0 m = Inr (map Num (if nrm then normalized avg else avg))"
      by (simp add: pool_region_def mean l2_normalize_finite)
    with gmean True show ?thesis by simp
  next
    case False
    show ?thesis
    proof (cases "kind = ''max''")
      case True
      have "pool_region ''max'' nrm x m d 0 m = Inr (map Num (if nrm then normalized top else top))"
        by (simp add: pool_region_def maxe l2_normalize_finite)
      with gmax True show ?thesis by simp
    next
      case False
      with \<open>kind \<noteq> ''mean''\<close> show ?thesis
        by (simp add: pool_region_def global_pool_def)
    qed
  qed
qed

lemma global_pool_finite:
  "global_pool kind nrm x = Inr v \<Longrightarrow> \<exists>ps. v = map Num ps"
  unfolding global_pool_def Let_def by (auto split: if_splits simp del: map_map)

text \<open>
  Claim C9. For every non-empty \<open>[m, d]\<close> feature matrix and every common choice of
  pooling kind, per-region normalisation and unit scaling, pyramid pooling with
  \<open>levels = 0\<close> and chunk-concat pooling with \<open>n = 1\<close> both equal the single global pool
  over the whole input (of the lower-cased pooling kind), and hence equal each other.
\<close>

theorem pyramid0_concat1_global_pool:
  assumes "shape x = [m, d]" and "length (data x) = m * d" and "0 < m"
  shows "feature_1dpyramid x 0 pool_type nrm unit = global_pool (lower pool_type) nrm x \<and>
         feature_1dconcat x 1 pool_type nrm unit = global_pool (lower pool_type) nrm x"
proof -
  have x: "x\<lparr>shape := [m, d]\<rparr> = x"
    using assms(1) by simp
  have whole: "pool_region (lower pool_type) nrm x m d 0 m = global_pool (lower pool_type) nrm x"
    using pool_region_whole [OF assms(2,3), of "lower pool_type" nrm] x by simp
  show ?thesis
  proof (cases "global_pool (lower pool_type) nrm x")
    case (Inl e)
    with whole assms(1) show ?thesis
      by (simp add: feature_1dpyramid_def feature_1dconcat_def pool_edges_one)
  next
    case (Inr v)
    then obtain ps where "v = map Num ps"
      using global_pool_finite by blast
    moreover have "map (\<lambda>v. fl_div v (Num 1)) (map Num ps) = map Num ps"
      by (simp add: np_divide_def)
    ultimately show ?thesis
      using Inr whole assms(1)
      by (simp add: feature_1dpyramid_def feature_1dconcat_def pool_edges_one Let_def)
  qed
qed


theorem pyramid0_concat1_global_pool_witness:
  "shape \<lparr>shape = [2, 2], data = [3, 4, 5, 6 :: real]\<rparr> = [2, 2] \<and>
   length (data \<lparr>shape = [2, 2], data = [3, 4, 5, 6 :: real]\<rparr>) = 2 * 2 \<and> (0::nat) < 2 \<and>
   feature_1dpyramid \<lparr>shape = [2, 2], data = [3, 4, 5, 6]\<rparr> 0 ''Mean'' False True
     = Inr [Num 4, Num 5] \<and>
   feature_1dconcat \<lparr>shape = [2, 2], data = [3, 4, 5, 6]\<rparr> 1 ''Mean'' False True
     = Inr [Num 4, Num 5] \<and>
   global_pool ''mean'' False \<lparr>shape = [2, 2], data = [3, 4, 5, 6]\<rparr> = Inr [Num 4, Num 5]"
proof -
  let ?x = "\<lparr>shape = [2, 2], data = [3, 4, 5, 6 :: real]\<rparr>"
  have h: "shape ?x = [2, 2]" "length (data ?x) = 2 * 2" "(0::nat) < 2"
    by simp_all
  have low: "lower ''Mean'' = ''mean''"
    by (simp add: lower_def char_lower_def)
  have "feature_1dpyramid ?x 0 ''Mean'' False True = Inr [Num 4, Num 5]"
    by (simp add: feature_1dpyramid_def pool_edges_one low pool_region_def mean_axis0_def
          rows_slice_def np_divide_def eval_nat_numeral)
  with pyramid0_concat1_global_pool [OF h, of "''Mean''" False True] low h show ?thesis
    by simp
qed

lemma pool_region_mean_empty: "pool_region ''mean'' nrm x m d e e = Inr (replicate d NaN)"
proof -
  have "mean_axis0 d [] = replicate d NaN"
    by (simp add: mean_axis0_def np_divide_def map_replicate_const)
  moreover have "l2_normalize (replicate d NaN) = replicate d NaN"
    by (simp add: l2_normalize_def Let_def)
  ultimately show ?thesis
    by (simp add: pool_region_def rows_slice_def)
qed

lemma pool_region_max_empty: "pool_region ''max'' nrm x m d e e = Inl ValueError"
  by (simp add: pool_region_def rows_slice_def max_axis0_def)

lemma pool_region_error: "pool_region pt nrm x m d lo hi = Inl e \<Longrightarrow> e = ValueError"
  by (auto simp: pool_region_def max_axis0_def split: if_splits sum.splits)

lemma pool_regions_error:
  "pool_regions pt nrm x m d edges js = Inl e \<Longrightarrow> e = ValueError"
  by (induction js arbitrary: e) (auto split: sum.splits dest: pool_region_error)

lemma pool_regions_max_empty:
  "j \<in> set js \<Longrightarrow> edges ! j = edges ! (j + 1) \<Longrightarrow>
     pool_regions ''max'' nrm x m d edges js = Inl ValueError"
proof (induction js)
  case Nil
  then show ?case by simp
next
  case (Cons a js)
  show ?case
  proof (cases "a = j")
    case True
    with Cons.prems show ?thesis by (simp add: pool_region_max_empty)
  next
    case False
    with Cons have "pool_regions ''max'' nrm x m d edges js = Inl ValueError" by simp
    then show ?thesis
      by (auto split: sum.splits dest: pool_region_error)
  qed
qed

lemma pool_regions_mean_empty:
  "\<exists>arr. pool_regions ''mean'' nrm x m d edges js = Inr arr \<and>
         (\<forall>j \<in> set js. edges ! j = edges ! (j + 1) \<longrightarrow> replicate d NaN \<in> set arr)"
proof (induction js)
  case Nil
  then show ?case by simp
next
  case (Cons a js)
  then obtain arr where arr: "pool_regions ''mean'' nrm x m d edges js = Inr arr"
    "\<forall>j \<in> set js. edges ! j = edges ! (j + 1) \<longrightarrow> replicate d NaN \<in> set arr"
    by blast
  obtain v where v: "pool_region ''mean'' nrm x m d (edges ! a) (edges ! (a + 1)) = Inr v"
    by (simp add: pool_region_def)
  have "edges ! a = edges ! (a + 1) \<Longrightarrow> v = replicate d NaN"
    using v pool_region_mean_empty [of nrm x m d "edges ! a"] by simp
  with arr v show ?case by auto
qed

lemma pyramid_levels_error:
  "pyramid_levels pt nrm x m d is = Inl e \<Longrightarrow> e = ValueError"
  by (induction "is" arbitrary: e) (auto simp: Let_def split: sum.splits dest: pool_regions_error)

lemma pyramid_levels_max_empty:
  "i \<in> set is \<Longrightarrow> j < 2 ^ i \<Longrightarrow> pool_edges (2 ^ i) m ! j = pool_edges (2 ^ i) m ! (j + 1) \<Longrightarrow>
     pyramid_levels ''max'' nrm x m d is = Inl ValueError"
proof (induction "is")
  case Nil
  then show ?case by simp
next
  case (Cons a "is")
  show ?case
  proof (cases "a = i")
    case True
    have "j \<in> set [0..<2 ^ i]" using Cons.prems by simp
    from pool_regions_max_empty [OF this Cons.prems(3)] True show ?thesis
      by (simp add: Let_def)
  next
    case False
    with Cons have "pyramid_levels ''max'' nrm x m d is = Inl ValueError" by simp
    then show ?thesis
      by (auto simp: Let_def split: sum.splits dest: pool_regions_error)
  qed
qed

lemma pyramid_levels_mean_empty:
  "\<exists>arr. pyramid_levels ''mean'' nrm x m d is = Inr arr \<and>
         (\<forall>i \<in> set is. \<forall>j < 2 ^ i.
            pool_edges (2 ^ i) m ! j = pool_edges (2 ^ i) m ! (j + 1) \<longrightarrow>
            replicate d NaN \<in> set arr)"
proof (induction "is")
  case Nil
  then show ?case by simp
next
  case (Cons a "is")
  then obtain ws where ws: "pyramid_levels ''mean'' nrm x m d is = Inr ws"
    "\<forall>i \<in> set is. \<forall>j < 2 ^ i.
        pool_edges (2 ^ i) m ! j = pool_edges (2 ^ i) m ! (j + 1) \<longrightarrow> replicate d NaN \<in> set ws"
    by blast
  obtain vs where vs: "pool_regions ''mean'' nrm x m d (pool_edges (2 ^ a) m) [0..<2 ^ a] = Inr vs"
    "\<forall>j \<in> set [0..<2 ^ a].
        pool_edges (2 ^ a) m ! j = pool_edges (2 ^ a) m ! (j + 1) \<longrightarrow> replicate d NaN \<in> set vs"
    using pool_regions_mean_empty [of nrm x m d "pool_edges (2 ^ a) m" "[0..<2 ^ a]"] by blast
  from ws vs show ?case by (auto simp: Let_def)
qed

lemma nan_in_concat:
  assumes "replicate d NaN \<in> set arr" "0 < d"
  shows "NaN \<in> set (concat arr)" "NaN \<in> set (map (\<lambda>v. fl_div v c) (concat arr))" "arr \<noteq> []"
proof -
  from assms(2) have "NaN \<in> set (replicate d NaN)" by simp
  with assms(1) show n: "NaN \<in> set (concat arr)"
    unfolding set_concat by blast
  have "fl_div NaN c = NaN" by simp
  with n show "NaN \<in> set (map (\<lambda>v. fl_div v c) (concat arr))"
    by (metis image_eqI list.set_map)
  from assms(1) show "arr \<noteq> []" by auto
qed

text \<open>
  Claim C4, amended. When the computed partition edges make some region empty
  (adjacent edges coincide), pyramid pooling and chunk-concat pooling fail only for
  \<^verbatim>\<open>'max'\<close> pooling, with numpy's ValueError; for \<^verbatim>\<open>'mean'\<close> pooling they raise nothing
  and return a result that, for \<open>d > 0\<close>, contains NaN.
\<close>

theorem empty_region_pooling:
  assumes "shape x = [m, d]" and "0 < d"
  shows "(0 < n \<and> j < nat n \<and> pool_edges (nat n) m ! j = pool_edges (nat n) m ! (j + 1) \<longrightarrow>
           (lower pool_type = ''max'' \<longrightarrow>
              feature_1dconcat x n pool_type nrm unit = Inl ValueError) \<and>
           (lower pool_type = ''mean'' \<longrightarrow>
              (\<exists>r. feature_1dconcat x n pool_type nrm unit = Inr r \<and> NaN \<in> set r))) \<and>
         (0 \<le> levels \<and> i \<le> nat levels \<and> j < 2 ^ i \<and>
          pool_edges (2 ^ i) m ! j = pool_edges (2 ^ i) m ! (j + 1) \<longrightarrow>
           (lower pool_type = ''max'' \<longrightarrow>
              feature_1dpyramid x levels pool_type nrm unit = Inl ValueError) \<and>
           (lower pool_type = ''mean'' \<longrightarrow>
              (\<exists>r. feature_1dpyramid x levels pool_type nrm unit = Inr r \<and> NaN \<in> set r)))"
proof (intro conjI impI)
  assume a: "0 < n \<and> j < nat n \<and> pool_edges (nat n) m ! j = pool_edges (nat n) m ! (j + 1)"
  then have j: "j \<in> set [0..<nat n]" by simp
  {
    assume "lower pool_type = ''max''"
    with pool_regions_max_empty [OF j, of "pool_edges (nat n) m" nrm x m d] a assms(1)
    show "feature_1dconcat x n pool_type nrm unit = Inl ValueError"
      by (simp add: feature_1dconcat_def)
  }
  {
    assume mean: "lower pool_type = ''mean''"
    obtain arr where arr: "pool_regions ''mean'' nrm x m d (pool_edges (nat n) m) [0..<nat n] = Inr arr"
      "replicate d NaN \<in> set arr"
      using pool_regions_mean_empty [of nrm x m d "pool_edges (nat n) m" "[0..<nat n]"] j a by blast
    from nan_in_concat [OF arr(2) assms(2)] arr(1) mean a assms(1)
    show "\<exists>r. feature_1dconcat x n pool_type nrm unit = Inr r \<and> NaN \<in> set r"
      by (simp add: feature_1dconcat_def Let_def)
  }
next
  assume a: "0 \<le> levels \<and> i \<le> nat levels \<and> j < 2 ^ i \<and>
             pool_edges (2 ^ i) m ! j = pool_edges (2 ^ i) m ! (j + 1)"
  then have i: "i \<in> set [0..<nat (levels + 1)]" by auto
  {
    assume "lower pool_type = ''max''"
    with pyramid_levels_max_empty [OF i, of j m nrm x d] a assms(1)
    show "feature_1dpyramid x levels pool_type nrm unit = Inl ValueError"
      by (simp add: feature_1dpyramid_def)
  }
  {
    assume mean: "lower pool_type = ''mean''"
    obtain arr where arr: "pyramid_levels ''mean'' nrm x m d [0..<nat (levels + 1)] = Inr arr"
      "replicate d NaN \<in> set arr"
      using pyramid_levels_mean_empty [of nrm x m d "[0..<nat (levels + 1)]"] i a by blast
    from nan_in_concat [OF arr(2) assms(2)] arr(1) mean a assms(1)
    show "\<exists>r. feature_1dpyramid x levels pool_type nrm unit = Inr r \<and> NaN \<in> set r"
      by (simp add: feature_1dpyramid_def Let_def)
  }
qed


lemma pool_edges_two_one:
  "pool_edges 2 1 = [0, 0, 1]"
  "pool_edges 2 (Suc 0) = [0, 0, 1]"
  "pool_edges (Suc (Suc 0)) (Suc 0) = [0, 0, 1]"
  by (simp_all add: pool_edges_def np_round_def eval_nat_numeral)

theorem empty_region_pooling_witness:
  "shape \<lparr>shape = [1, 1], data = [3 :: real]\<rparr> = [1, 1] \<and> (0::nat) < 1 \<and>
   pool_edges 2 1 ! 0 = pool_edges 2 1 ! 1 \<and>
   feature_1dconcat \<lparr>shape = [1, 1], data = [3]\<rparr> 2 ''max'' True False = Inl ValueError \<and>
   (\<exists>r. feature_1dconcat \<lparr>shape = [1, 1], data = [3]\<rparr> 2 ''mean'' True False = Inr r \<and>
        NaN \<in> set r) \<and>
   feature_1dpyramid \<lparr>shape = [1, 1], data = [3]\<rparr> 1 ''max'' True False = Inl ValueError \<and>
   (\<exists>r. feature_1dpyramid \<lparr>shape = [1, 1], data = [3]\<rparr> 1 ''mean'' True False = Inr r \<and>
        NaN \<in> set r)"
proof -
  let ?x = "\<lparr>shape = [1, 1], data = [3 :: real]\<rparr>"
  have h: "shape ?x = [1, 1]" "(0::nat) < 1"
    by simp_all
  have e: "pool_edges 2 1 ! 0 = pool_edges 2 1 ! 1"
    by (simp add: pool_edges_two_one)
  have low: "lower ''max'' = ''max''" "lower ''mean'' = ''mean''"
    by (simp_all add: lower_def char_lower_def)
  from empty_region_pooling [OF h, of 2 0 "''max''" True False 1 1]
       empty_region_pooling [OF h, of 2 0 "''mean''" True False 1 1] e low
  show ?thesis by simp
qed

text \<open>
  Claim C4 as stated fails: one row split into two chunks, or pooled with one pyramid
  level below the top, has the edges 0, 0, 1; the first region is empty and mean pooling
  returns a vector with NaN for it.
\<close>

theorem empty_region_mean_returns_nan:
  "pool_edges 2 1 = [0, 0, 1] \<and>
   feature_1dconcat \<lparr>shape = [1, 1], data = [3]\<rparr> 2 ''mean'' True False = Inr [NaN, Num 1] \<and>
   feature_1dpyramid \<lparr>shape = [1, 1], data = [3]\<rparr> 1 ''mean'' True False
     = Inr [Num 1, NaN, Num 1]"
proof -
  have low: "lower ''mean'' = ''mean''"
    by (simp add: lower_def char_lower_def)
  have r: "sqrt 9 = 3"
    using real_sqrt_abs [of 3] by simp
  have c: "feature_1dconcat \<lparr>shape = [1, 1], data = [3]\<rparr> 2 ''mean'' True False = Inr [NaN, Num 1]"
    by (simp add: feature_1dconcat_def pool_edges_two_one low pool_region_def mean_axis0_def
          rows_slice_def np_divide_def l2_normalize_def r eval_nat_numeral)
  have p: "feature_1dpyramid \<lparr>shape = [1, 1], data = [3]\<rparr> 1 ''mean'' True False
             = Inr [Num 1, NaN, Num 1]"
    by (simp add: feature_1dpyramid_def pool_edges_two_one pool_edges_one low pool_region_def
          mean_axis0_def rows_slice_def np_divide_def l2_normalize_def r eval_nat_numeral)
  from c p show ?thesis by (simp add: pool_edges_two_one)
qed

section \<open>The binary feature dump and its reader\<close>

text \<open>
  A file is its bytes. \<^verbatim>\<open>array.array('i')\<close> and \<^verbatim>\<open>array.array('f')\<close> hold 4-byte items
  in the byte order of the host, which is a parameter of the model. An item is kept as
  its 32-bit pattern: read as a two's complement number (\<open>sint\<close>) for the header, and
  as an IEEE 754 single precision float (\<open>float32_value\<close>) for the values.
\<close>

type_synonym byte = "8 word"

datatype byteorder = LittleEndian | BigEndian

text \<open>The number a list of bytes denotes, least significant byte first, and back.\<close>

fun le_value :: "byte list \<Rightarrow> nat" where
  "le_value [] = 0"
| "le_value (b # bs) = unat b + 256 * le_value bs"

fun le_bytes :: "nat \<Rightarrow> nat \<Rightarrow> byte list" where
  "le_bytes 0 v = []"
| "le_bytes (Suc k) v = word_of_nat (v mod 256) # le_bytes k (v div 256)"

definition word_of_bytes :: "byteorder \<Rightarrow> byte list \<Rightarrow> 32 word" where
  "word_of_bytes bo bs = word_of_nat (le_value (case bo of LittleEndian \<Rightarrow> bs | BigEndian \<Rightarrow> rev bs))"

definition bytes_of_word :: "byteorder \<Rightarrow> 32 word \<Rightarrow> byte list" where
  "bytes_of_word bo w = (case bo of LittleEndian \<Rightarrow> le_bytes 4 (unat w) | BigEndian \<Rightarrow> rev (le_bytes 4 (unat w)))"

text \<open>The bytes of a sequence of 4-byte items, as the producing tool writes them.\<close>

definition dump_bytes :: "byteorder \<Rightarrow> 32 word list \<Rightarrow> byte list" where
  "dump_bytes bo ws = concat (map (bytes_of_word bo) ws)"

text \<open>
  \<^verbatim>\<open>arr.fromfile(f, n)\<close> of Python 2 on an empty array, from the current position of
  the file: it reads nothing when \<open>n \<le> 0\<close>; it raises MemoryError when the size in
  bytes overflows (64-bit build) and EOFError when fewer than \<open>n\<close> whole items are
  left. It returns the items and the rest of the file. Allocation is taken to succeed
  below the overflow bound.
\<close>

fun items4 :: "byte list \<Rightarrow> byte list list" where
  "items4 (a # b # c # d # rest) = [a, b, c, d] # items4 rest"
| "items4 _ = []"

definition fromfile :: "byteorder \<Rightarrow> byte list \<Rightarrow> int \<Rightarrow> error + 32 word list \<times> byte list" where
  "fromfile bo f n =
     (if 0 < n then
        if 2 ^ 62 \<le> n then Inl MemoryError
        else if 4 * nat n \<le> length f
        then Inr (map (word_of_bytes bo) (items4 (take (4 * nat n) f)), drop (4 * nat n) f)
        else Inl EOFError
      else Inr ([], f))"

text \<open>
  \<^verbatim>\<open>np.cumprod(s)[-1]\<close> for the int32 array \<open>s\<close>: numpy accumulates in the platform
  integer, 64 bits, and wraps around.
\<close>

definition cumprod_last :: "32 word list \<Rightarrow> int" where
  "cumprod_last s = sint (prod_list (map scast s) :: 64 word)"

text \<open>
  \<^verbatim>\<open>c3d_read_feature(filename)\<close> on a file system \<open>fs\<close>; a missing file makes
  \<^verbatim>\<open>open\<close> raise IOError. What follows the values in the file is not looked at.
\<close>

definition c3d_read_feature ::
  "byteorder \<Rightarrow> (string \<rightharpoonup> byte list) \<Rightarrow> string \<Rightarrow> error + 32 word list \<times> 32 word list" where
  "c3d_read_feature bo fs filename =
     (case fs filename of
        None \<Rightarrow> Inl IOError
      | Some f \<Rightarrow>
          (case fromfile bo f 5 of
             Inl e \<Rightarrow> Inl e
           | Inr (s, f') \<Rightarrow>
               let m = cumprod_last s in
               (case fromfile bo f' m of
                  Inl e \<Rightarrow> Inl e
                | Inr (d, f'') \<Rightarrow> Inr (s, d))))"

text \<open>The value of a 32-bit pattern read as an IEEE 754 single precision float.\<close>

definition float32_value :: "32 word \<Rightarrow> npfloat" where
  "float32_value w =
     (let negative = (2 ^ 31 \<le> unat w);
          e = unat w div 2 ^ 23 mod 256;
          frac = unat w mod 2 ^ 23
      in if e = 255 then (if frac = 0 then (if negative then NInf else PInf) else NaN)
         else
           let mag = (if e = 0 then real frac / 2 ^ 23 / 2 ^ 126
                      else (1 + real frac / 2 ^ 23) *
                           (if 127 \<le> e then 2 ^ (e - 127) else 1 / 2 ^ (127 - e)))
           in Num (if negative then - mag else mag))"

section \<open>The feature stacker\<close>

text \<open>
  \<^verbatim>\<open>np.empty((n, d))\<close>: an array whose contents are whatever the memory held; \<open>uninit\<close>
  gives that content at each position.
\<close>

definition np_empty :: "(nat \<Rightarrow> npfloat) \<Rightarrow> nat \<Rightarrow> nat \<Rightarrow> npfloat ndarray" where
  "np_empty uninit n d = \<lparr>shape = [n, d], data = map uninit [0..<n * d]\<rparr>"

text \<open>
  \<^verbatim>\<open>arr[i, ...] = values\<close>: the float32 values are converted to float64 (exactly)
  and must have the length of the row, or length 1, which numpy broadcasts over the
  row; any other length raises ValueError.
\<close>

definition assign_row :: "npfloat ndarray \<Rightarrow> nat \<Rightarrow> 32 word list \<Rightarrow> error + npfloat ndarray" where
  "assign_row arr i vals =
     (case shape arr of
        [n, d] \<Rightarrow>
          if n \<le> i then Inl IndexError
          else if length vals = d
          then Inr (arr\<lparr>data := take (i * d) (data arr) @ map float32_value vals
                                   @ drop ((i + 1) * d) (data arr)\<rparr>)
          else if length vals = 1
          then Inr (arr\<lparr>data := take (i * d) (data arr) @ replicate d (float32_value (hd vals))
                                   @ drop ((i + 1) * d) (data arr)\<rparr>)
          else Inl ValueError
      | _ \<Rightarrow> Inl IndexError)"

text \<open>
  The loop \<^verbatim>\<open>for i, v in enumerate(sorted_files[1::])\<close> with its body
  \<^verbatim>\<open>_, data = c3d_read_feature(v); arr[i, ...] = data\<close>, over the pairs \<open>(i, v)\<close>
  that \<^verbatim>\<open>enumerate\<close> yields.
\<close>

fun stack_loop ::
  "byteorder \<Rightarrow> (string \<rightharpoonup> byte list) \<Rightarrow> npfloat ndarray \<Rightarrow> (nat \<times> string) list
     \<Rightarrow> error + npfloat ndarray" where
  "stack_loop bo fs arr [] = Inr arr"
| "stack_loop bo fs arr ((i, v) # ivs) =
     (case c3d_read_feature bo fs v of
        Inl e \<Rightarrow> Inl e
      | Inr (s, vals) \<Rightarrow>
          (case assign_row arr i vals of
             Inl e \<Rightarrow> Inl e
           | Inr arr' \<Rightarrow> stack_loop bo fs arr' ivs))"

text \<open>
  \<^verbatim>\<open>c3d_stack_feature\<close> from the sorted list of resolved files on (lines 188 to 197 of
  the source), with \<^verbatim>\<open>pool_type=None\<close> and \<^verbatim>\<open>savefile=None\<close>, so that the stacked
  array is what is returned. \<^verbatim>\<open>sorted_files[0]\<close> of an empty list raises IndexError and
  \<^verbatim>\<open>np.empty\<close> with a negative dimension raises ValueError.
\<close>

definition c3d_stack_feature ::
  "byteorder \<Rightarrow> (nat \<Rightarrow> npfloat) \<Rightarrow> (string \<rightharpoonup> byte list) \<Rightarrow> string list
     \<Rightarrow> error + npfloat ndarray" where
  "c3d_stack_feature bo uninit fs sorted_files =
     (case sorted_files of
        [] \<Rightarrow> Inl IndexError
      | first # others \<Rightarrow>
          (case c3d_read_feature bo fs first of
             Inl e \<Rightarrow> Inl e
           | Inr (s, vals) \<Rightarrow>
               if cumprod_last s < 0 then Inl ValueError
               else
                 (case assign_row (np_empty uninit (length sorted_files) (nat (cumprod_last s)))
                         0 vals of
                    Inl e \<Rightarrow> Inl e
                  | Inr arr \<Rightarrow> stack_loop bo fs arr (enumerate 0 others))))"

section \<open>Properties of the reader\<close>

lemma le_value_le_bytes: "le_value (le_bytes k v) = v mod 256 ^ k"
proof (induction k arbitrary: v)
  case 0
  then show ?case by simp
next
  case (Suc k)
  have "unat (word_of_nat (v mod 256) :: byte) = v mod 256"
    by (simp add: unat_of_nat)
  with Suc show ?case
    by (simp add: mod_mult2_eq)
qed

lemma length_le_bytes: "length (le_bytes k v) = k"
  by (induction k arbitrary: v) simp_all

lemma word_of_bytes_of_word: "word_of_bytes bo (bytes_of_word bo w) = w"
proof -
  have "unat w mod 256 ^ 4 = unat w"
    using unsigned_less [of w, where 'a = nat] by simp
  then have "word_of_nat (le_value (le_bytes 4 (unat w))) = w"
    by (simp only: le_value_le_bytes) simp
  then show ?thesis
    by (cases bo) (simp_all add: word_of_bytes_def bytes_of_word_def)
qed

lemma length_bytes_of_word: "length (bytes_of_word bo w) = 4"
  by (cases bo) (simp_all add: bytes_of_word_def length_le_bytes)

lemma length_dump_bytes: "length (dump_bytes bo ws) = 4 * length ws"
  by (induction ws) (simp_all add: dump_bytes_def length_bytes_of_word)

lemma length_four: "length xs = 4 \<Longrightarrow> \<exists>a b c d. xs = [a, b, c, d]"
  by (auto simp: length_Suc_conv eval_nat_numeral)

lemma items4_dump_bytes:
  "map (word_of_bytes bo) (items4 (dump_bytes bo ws)) = ws"
proof (induction ws)
  case Nil
  then show ?case by (simp add: dump_bytes_def)
next
  case (Cons w ws)
  obtain a b c d where abcd: "bytes_of_word bo w = [a, b, c, d]"
    using length_four [OF length_bytes_of_word [of bo w]] by blast
  have "word_of_bytes bo [a, b, c, d] = w"
    using word_of_bytes_of_word [of bo w] abcd by simp
  with Cons abcd show ?case
    by (simp add: dump_bytes_def)
qed

lemma fromfile_dump:
  assumes "length ws < 2 ^ 62"
  shows "fromfile bo (dump_bytes bo ws @ rest) (int (length ws)) = Inr (ws, rest)"
  using assms
  by (auto simp: fromfile_def length_dump_bytes items4_dump_bytes dump_bytes_def [of bo "[]"])


lemma cumprod_last_exact:
  assumes "- (2 ^ 63) \<le> prod_list (map sint s)" and "prod_list (map sint s) < 2 ^ 63"
  shows "cumprod_last s = prod_list (map sint s)"
proof -
  have "(prod_list (map scast s) :: 64 word) = word_of_int (prod_list (map sint s))"
  proof (induction s)
    case Nil
    show ?case by simp
  next
    case (Cons a s)
    have "(scast a :: 64 word) = word_of_int (sint a)"
      by (rule scast_eq)
    with Cons show ?case
      by (simp only: list.map prod_list.Cons of_int_mult)
  qed
  then have "cumprod_last s = sint (word_of_int (prod_list (map sint s)) :: 64 word)"
    by (simp only: cumprod_last_def)
  also have "\<dots> = signed_take_bit (LENGTH(64) - 1) (prod_list (map sint s))"
    by (rule sint_sbintrunc')
  also have "\<dots> = signed_take_bit 63 (prod_list (map sint s))"
    by simp
  also have "\<dots> = prod_list (map sint s)"
    using assms by (rule signed_take_bit_int_eq_self)
  finally show ?thesis .
qed

lemma c3d_read_feature_dump:
  assumes "fs filename = Some (dump_bytes bo shp @ dump_bytes bo vals)"
    and "length shp = 5"
    and "int (length vals) = prod_list (map sint shp)"
    and "length (dump_bytes bo shp @ dump_bytes bo vals) < 2 ^ 63"
  shows "c3d_read_feature bo fs filename = Inr (shp, vals)"
proof -
  have small: "length vals < 2 ^ 62"
    using assms(4) by (simp add: length_dump_bytes)
  have "fromfile bo (dump_bytes bo shp @ dump_bytes bo vals) (int (length shp))
          = Inr (shp, dump_bytes bo vals)"
    using assms(2) by (intro fromfile_dump) simp
  then have hdr: "fromfile bo (dump_bytes bo shp @ dump_bytes bo vals) 5
                    = Inr (shp, dump_bytes bo vals)"
    using assms(2) by simp
  have "int (length vals) < int (2 ^ 62)"
    using small by (simp only: of_nat_less_iff)
  then have "int (length vals) < 2 ^ 63"
    by simp
  moreover have "- (2 ^ 63) \<le> int (length vals)"
    by (rule order_trans [of _ 0]) simp_all
  ultimately have "prod_list (map sint shp) < 2 ^ 63" "- (2 ^ 63) \<le> prod_list (map sint shp)"
    using assms(3) by simp_all
  then have m: "cumprod_last shp = int (length vals)"
    using assms(3) by (simp add: cumprod_last_exact)
  have "fromfile bo (dump_bytes bo vals @ []) (int (length vals)) = Inr (vals, [])"
    using small by (rule fromfile_dump)
  with hdr m assms(1) show ?thesis
    by (simp add: c3d_read_feature_def)
qed

lemma le_bytes_four:
  "le_bytes 4 v =
     [word_of_nat (v mod 256), word_of_nat (v div 256 mod 256),
      word_of_nat (v div 256 div 256 mod 256), word_of_nat (v div 256 div 256 div 256 mod 256)]"
proof -
  have "(4::nat) = Suc (Suc (Suc (Suc 0)))" by simp
  then show ?thesis by (simp only: le_bytes.simps)
qed

text \<open>
  Claim C7. For every file whose contents are exactly 5 signed 32-bit integers followed
  by exactly the product of those integers many 32-bit floats, the reader returns that
  5-element shape vector and that flat value buffer. (A file is shorter than \<open>2^63\<close>
  bytes, the largest offset of a file.) The scenario of the claim, the dump with header
  \<open>[1, 1, 1, 1, 4]\<close> and values \<open>[1.0, 2.0, 3.0, 4.0]\<close> on a little-endian host, is the
  witness.
\<close>

theorem c3d_read_feature_roundtrip:
  assumes "fs filename = Some (dump_bytes bo shp @ dump_bytes bo vals)"
    and "length shp = 5"
    and "int (length vals) = prod_list (map sint shp)"
    and "length (dump_bytes bo shp @ dump_bytes bo vals) < 2 ^ 63"
  shows "c3d_read_feature bo fs filename = Inr (shp, vals)"
  using assms by (rule c3d_read_feature_dump)

theorem c3d_read_feature_scenario:
  "dump_bytes LittleEndian [1, 1, 1, 1, 4]
     @ dump_bytes LittleEndian [0x3F800000, 0x40000000, 0x40400000, 0x40800000]
     = [1, 0, 0, 0,  1, 0, 0, 0,  1, 0, 0, 0,  1, 0, 0, 0,  4, 0, 0, 0,
        0, 0, 0x80, 0x3F,  0, 0, 0, 0x40,  0, 0, 0x40, 0x40,  0, 0, 0x80, 0x40] \<and>
   map float32_value [0x3F800000, 0x40000000, 0x40400000, 0x40800000]
     = [Num 1, Num 2, Num 3, Num 4] \<and>
   c3d_read_feature LittleEndian
     [''dump'' \<mapsto> [1, 0, 0, 0,  1, 0, 0, 0,  1, 0, 0, 0,  1, 0, 0, 0,  4, 0, 0, 0,
                     0, 0, 0x80, 0x3F,  0, 0, 0, 0x40,  0, 0, 0x40, 0x40,  0, 0, 0x80, 0x40]]
     ''dump''
     = Inr ([1, 1, 1, 1, 4], [0x3F800000, 0x40000000, 0x40400000, 0x40800000])"
proof -
  let ?shp = "[1, 1, 1, 1, 4] :: 32 word list"
  let ?vals = "[0x3F800000, 0x40000000, 0x40400000, 0x40800000] :: 32 word list"
  let ?bytes = "[1, 0, 0, 0,  1, 0, 0, 0,  1, 0, 0, 0,  1, 0, 0, 0,  4, 0, 0, 0,
        0, 0, 0x80, 0x3F,  0, 0, 0, 0x40,  0, 0, 0x40, 0x40,  0, 0, 0x80, 0x40] :: byte list"
  have b: "dump_bytes LittleEndian ?shp @ dump_bytes LittleEndian ?vals = ?bytes"
    by (simp add: dump_bytes_def bytes_of_word_def le_bytes_four)
  have v: "map float32_value ?vals = [Num 1, Num 2, Num 3, Num 4]"
    by (simp add: float32_value_def)
  have h1: "[''dump'' \<mapsto> ?bytes] ''dump''
              = Some (dump_bytes LittleEndian ?shp @ dump_bytes LittleEndian ?vals)"
    by (simp only: b) simp
  have h2: "length ?shp = 5" by simp
  have h3: "int (length ?vals) = prod_list (map sint ?shp)" by simp
  have h4: "length (dump_bytes LittleEndian ?shp @ dump_bytes LittleEndian ?vals) < 2 ^ 63"
    by (simp only: b) simp
  from c3d_read_feature_roundtrip
         [where fs = "[''dump'' \<mapsto> ?bytes]" and filename = "''dump''", OF h1 h2 h3 h4] b v
  show ?thesis
    by (simp only:)
qed

section \<open>Properties of the stacker\<close>

text \<open>
  The float64 values of the dump \<open>v\<close>, and what it is for \<open>v\<close> to be a readable dump of
  feature dimension \<open>d\<close>.
\<close>

definition dump_values :: "byteorder \<Rightarrow> (string \<rightharpoonup> byte list) \<Rightarrow> string \<Rightarrow> npfloat list" where
  "dump_values bo fs v =
     (case c3d_read_feature bo fs v of Inl e \<Rightarrow> [] | Inr (s, vals) \<Rightarrow> map float32_value vals)"

definition dump_ok :: "byteorder \<Rightarrow> (string \<rightharpoonup> byte list) \<Rightarrow> nat \<Rightarrow> string \<Rightarrow> bool" where
  "dump_ok bo fs d v =
     (case c3d_read_feature bo fs v of
        Inl e \<Rightarrow> False
      | Inr (s, vals) \<Rightarrow> length vals = d \<and> cumprod_last s = int d)"

text \<open>Two dumps of dimension 2, holding \<open>[1.0, 2.0]\<close> and \<open>[3.0, 4.0]\<close>.\<close>

definition two_dumps :: "byteorder \<Rightarrow> string \<rightharpoonup> byte list" where
  "two_dumps bo =
     [''000001.fc7-1'' \<mapsto> dump_bytes bo [1, 2, 1, 1, 1] @ dump_bytes bo [0x3F800000, 0x40000000],
      ''000009.fc7-1'' \<mapsto> dump_bytes bo [1, 2, 1, 1, 1] @ dump_bytes bo [0x40400000, 0x40800000]]"

lemma two_dumps_read:
  "c3d_read_feature bo (two_dumps bo) ''000001.fc7-1''
     = Inr ([1, 2, 1, 1, 1], [0x3F800000, 0x40000000])"
  "c3d_read_feature bo (two_dumps bo) ''000009.fc7-1''
     = Inr ([1, 2, 1, 1, 1], [0x40400000, 0x40800000])"
  by (rule c3d_read_feature_dump; simp add: two_dumps_def length_dump_bytes)+

lemma assign_row_ok:
  assumes "dump_ok bo fs d v" and "i < n"
  shows "\<exists>s vals. c3d_read_feature bo fs v = Inr (s, vals) \<and> cumprod_last s = int d \<and>
           assign_row \<lparr>shape = [n, d], data = dat\<rparr> i vals
             = Inr \<lparr>shape = [n, d],
                    data = take (i * d) dat @ dump_values bo fs v @ drop ((i + 1) * d) dat\<rparr>"
proof -
  from assms(1) obtain s vals where rd: "c3d_read_feature bo fs v = Inr (s, vals)"
    and l: "length vals = d" and m: "cumprod_last s = int d"
    by (auto simp: dump_ok_def split: sum.splits)
  have "assign_row \<lparr>shape = [n, d], data = dat\<rparr> i vals
          = Inr \<lparr>shape = [n, d],
                 data = take (i * d) dat @ dump_values bo fs v @ drop ((i + 1) * d) dat\<rparr>"
    using assms(2) l rd by (simp add: assign_row_def dump_values_def)
  with rd m show ?thesis by blast
qed

lemma take_drop_three:
  assumes "length A = a" and "length B = b"
  shows "take (a + b) (A @ B @ C) = A @ B" and "drop (a + b + c) (A @ B @ C) = drop c C"
  using assms by simp_all

lemma stack_loop_rows:
  assumes "\<forall>v \<in> set vs. dump_ok bo fs d v"
    and "length dat = n * d" and "j + length vs \<le> n"
  shows "stack_loop bo fs \<lparr>shape = [n, d], data = dat\<rparr> (enumerate j vs)
           = Inr \<lparr>shape = [n, d],
                  data = take (j * d) dat @ concat (map (dump_values bo fs) vs)
                           @ drop ((j + length vs) * d) dat\<rparr>"
  using assms
proof (induction vs arbitrary: j dat)
  case Nil
  then show ?case by simp
next
  case (Cons v vs)
  have ok: "dump_ok bo fs d v" and j: "j < n"
    using Cons.prems by simp_all
  have lv: "length (dump_values bo fs v) = d"
    using ok by (auto simp: dump_ok_def dump_values_def split: sum.splits)
  let ?dat = "take (j * d) dat @ dump_values bo fs v @ drop ((j + 1) * d) dat"
  obtain s vals where rd: "c3d_read_feature bo fs v = Inr (s, vals)"
    and asg: "assign_row \<lparr>shape = [n, d], data = dat\<rparr> j vals = Inr \<lparr>shape = [n, d], data = ?dat\<rparr>"
    using assign_row_ok [OF ok j, of dat] by blast
  have jd: "j * d + d \<le> n * d"
    using j by (metis Suc_leI mult_Suc mult_le_mono1 add.commute)
  then have la: "length (take (j * d) dat) = j * d"
    using Cons.prems(2) by simp
  have len: "length ?dat = n * d"
    using Cons.prems(2) lv jd la by simp
  have tk: "take (Suc j * d) ?dat = take (j * d) dat @ dump_values bo fs v"
    using take_drop_three(1) [OF la lv] by (simp add: add.commute)
  have "drop (j * d + d + length vs * d) ?dat = drop (length vs * d) (drop ((j + 1) * d) dat)"
    using take_drop_three(2) [OF la lv] by blast
  moreover have "(Suc j + length vs) * d = j * d + d + length vs * d"
    "(j + length (v # vs)) * d = length vs * d + (j + 1) * d"
    by (simp_all add: algebra_simps)
  ultimately have dr: "drop ((Suc j + length vs) * d) ?dat = drop ((j + length (v # vs)) * d) dat"
    by (simp only: drop_drop)
  have "stack_loop bo fs \<lparr>shape = [n, d], data = ?dat\<rparr> (enumerate (Suc j) vs)
          = Inr \<lparr>shape = [n, d],
                 data = take (Suc j * d) ?dat @ concat (map (dump_values bo fs) vs)
                          @ drop ((Suc j + length vs) * d) ?dat\<rparr>"
    using Cons.prems by (intro Cons.IH len) simp_all
  with rd asg tk dr show ?case
    by (simp del: mult_Suc)
qed

text \<open>
  Claim C1 says that row \<open>i\<close> of the stacked matrix holds the \<open>i\<close>-th dump, for every
  \<open>i\<close>. The loop of the source enumerates \<^verbatim>\<open>sorted_files[1::]\<close> from 0, so it
  writes the second dump over row 0 and leaves the last row as \<^verbatim>\<open>np.empty\<close> made it:
  for every list of two or more readable dumps of one dimension \<open>d\<close>, the rows of the
  result are the dumps from the second one on, followed by one uninitialised row. What
  was written from the first dump is overwritten.
\<close>

theorem c3d_stack_feature_rows_shifted:
  assumes "\<forall>v \<in> set (first # others). dump_ok bo fs d v"
    and "others \<noteq> []"
  shows "c3d_stack_feature bo uninit fs (first # others)
           = Inr \<lparr>shape = [Suc (length others), d],
                  data = concat (map (dump_values bo fs) others)
                           @ map uninit [length others * d..<Suc (length others) * d]\<rparr>"
proof -
  let ?n = "Suc (length others)"
  let ?dat = "dump_values bo fs first @ drop d (map uninit [0..<?n * d])"
  have ok: "dump_ok bo fs d first" using assms(1) by simp
  then obtain s vals where rd: "c3d_read_feature bo fs first = Inr (s, vals)"
    and m: "cumprod_last s = int d"
    and asg: "assign_row (np_empty uninit ?n d) 0 vals = Inr \<lparr>shape = [?n, d], data = ?dat\<rparr>"
    using assign_row_ok [of bo fs d first 0 ?n "map uninit [0..<?n * d]"]
    by (auto simp: np_empty_def)
  have lv: "length (dump_values bo fs first) = d"
    using ok by (auto simp: dump_ok_def dump_values_def split: sum.splits)
  have len: "length ?dat = ?n * d"
    using lv by simp
  have "stack_loop bo fs \<lparr>shape = [?n, d], data = ?dat\<rparr> (enumerate 0 others)
          = Inr \<lparr>shape = [?n, d],
                 data = take (0 * d) ?dat @ concat (map (dump_values bo fs) others)
                          @ drop ((0 + length others) * d) ?dat\<rparr>"
    using assms(1) by (intro stack_loop_rows len) simp_all
  moreover have "drop (length others * d) ?dat = map uninit [length others * d..<?n * d]"
  proof -
    from assms(2) have "0 < length others" by simp
    then have "d \<le> length others * d" by (cases "length others") simp_all
    then have "drop (length others * d) ?dat
                 = drop (length others * d - d) (drop d (map uninit [0..<?n * d]))"
      using lv by simp
    also have "\<dots> = drop (length others * d) (map uninit [0..<?n * d])"
      using \<open>d \<le> length others * d\<close> by simp
    also have "\<dots> = map uninit [length others * d..<?n * d]"
      by (simp add: drop_map drop_upt del: mult_Suc)
    finally show ?thesis .
  qed
  ultimately show ?thesis
    using rd m asg by (simp add: c3d_stack_feature_def del: mult_Suc)
qed

theorem c3d_stack_feature_two_dumps:
  "dump_ok LittleEndian (two_dumps LittleEndian) 2 ''000001.fc7-1'' \<and>
   dump_ok LittleEndian (two_dumps LittleEndian) 2 ''000009.fc7-1'' \<and>
   dump_values LittleEndian (two_dumps LittleEndian) ''000001.fc7-1'' = [Num 1, Num 2] \<and>
   dump_values LittleEndian (two_dumps LittleEndian) ''000009.fc7-1'' = [Num 3, Num 4] \<and>
   c3d_stack_feature LittleEndian (\<lambda>p. Num 0) (two_dumps LittleEndian)
       [''000001.fc7-1'', ''000009.fc7-1'']
     = Inr \<lparr>shape = [2, 2], data = [Num 3, Num 4, Num 0, Num 0]\<rparr>"
proof -
  let ?fs = "two_dumps LittleEndian"
  have v: "float32_value 0x3F800000 = Num 1" "float32_value 0x40000000 = Num 2"
    "float32_value 0x40400000 = Num 3" "float32_value 0x40800000 = Num 4"
    by (simp_all add: float32_value_def)
  have m: "cumprod_last [1, 2, 1, 1, 1] = 2"
    by (simp add: cumprod_last_def)
  have ok: "dump_ok LittleEndian ?fs 2 ''000001.fc7-1''" "dump_ok LittleEndian ?fs 2 ''000009.fc7-1''"
    by (simp_all add: dump_ok_def two_dumps_read m)
  have vals: "dump_values LittleEndian ?fs ''000001.fc7-1'' = [Num 1, Num 2]"
    "dump_values LittleEndian ?fs ''000009.fc7-1'' = [Num 3, Num 4]"
    by (simp_all add: dump_values_def two_dumps_read v)
  have all: "\<forall>v \<in> set [''000001.fc7-1'', ''000009.fc7-1'']. dump_ok LittleEndian ?fs 2 v"
    using ok by simp
  have u: "[Suc 0 * 2..<Suc (Suc 0) * 2] = [2, 3]"
    by code_simp
  have "c3d_stack_feature LittleEndian (\<lambda>p. Num 0) ?fs [''000001.fc7-1'', ''000009.fc7-1'']
          = Inr \<lparr>shape = [2, 2], data = [Num 3, Num 4, Num 0, Num 0]\<rparr>"
    using c3d_stack_feature_rows_shifted [OF all, of "\<lambda>p. Num 0"] vals u
    by (simp del: mult_Suc)
  with ok vals show ?thesis by simp
qed

end
